theory Spec2Isabelle
  imports Complex_Main
begin

section \<open>Bayesian belief network classifier (bbn.py)\<close>

text \<open>
  A shallow embedding of \<^verbatim>\<open>src/bbn.py\<close>: the node class \<^verbatim>\<open>BBN_Node\<close>, the network
  class \<^verbatim>\<open>BBN\<close> and its methods. Python method names that start with an underscore
  (\<^verbatim>\<open>_query\<close>, \<^verbatim>\<open>_build_queries\<close>, ...) lose it, since an Isabelle name cannot
  start with one.

  \<^item> Exceptions are values of type \<open>error\<close>; a method that can raise returns
    \<open>error + 'a\<close>, with \<open>Inl\<close> the exception.
  \<^item> A Python \<^verbatim>\<open>dict\<close> is an association list in insertion order: assigning to a
    present key keeps its position, assigning to a new key appends.
  \<^item> Query dictionaries are mutable objects and \<^verbatim>\<open>classify\<close> writes into them, so
    they live in an explicit store (\<open>heap\<close>) and are passed by address;
    \<^verbatim>\<open>copy.deepcopy\<close> allocates. Nodes and the graph are only read.
  \<^item> Probabilities are Python numbers. Their type \<open>'p\<close> is a parameter that only
    has to provide the operations the code uses (\<open>*\<close>, \<open>+\<close>, \<open>-\<close>, \<open>0\<close>, \<open>1\<close>, \<open><\<close>), with
    no law assumed about them, so what is proved of the generic definitions does not
    depend on how the arithmetic rounds. Exact arithmetic is the instance \<open>rat\<close>.
  \<^item> The \<^verbatim>\<open>verbose\<close> flag only prints; printing is not modelled.
\<close>

subsection \<open>Exceptions and dictionaries\<close>

datatype error =
    BadQueryError string
  | KeyError string
  | TypeError string
  | IndexError string

type_synonym pydict = "(string \<times> string) list"

text \<open>\<^verbatim>\<open>d[k] = v\<close>\<close>

fun dict_setitem :: "('k \<times> 'v) list \<Rightarrow> 'k \<Rightarrow> 'v \<Rightarrow> ('k \<times> 'v) list" where
  "dict_setitem [] k v = [(k, v)]"
| "dict_setitem ((k', v') # d) k v =
     (if k' = k then (k, v) # d else (k', v') # dict_setitem d k v)"

text \<open>\<^verbatim>\<open>d[k]\<close>, which raises \<^verbatim>\<open>KeyError(k)\<close> on a missing key\<close>

definition dict_getitem :: "(string \<times> 'v) list \<Rightarrow> string \<Rightarrow> error + 'v" where
  "dict_getitem d k = (case map_of d k of None \<Rightarrow> Inl (KeyError k) | Some v \<Rightarrow> Inr v)"

text \<open>\<^verbatim>\<open>k in d\<close>\<close>

definition dict_contains :: "('k \<times> 'v) list \<Rightarrow> 'k \<Rightarrow> bool" where
  "dict_contains d k = (k \<in> set (map fst d))"

subsection \<open>The store of query dictionaries\<close>

type_synonym addr = nat

record heap =
  objs :: "addr \<Rightarrow> pydict"
  nxt :: addr

text \<open>
  \<^verbatim>\<open>copy.deepcopy(d)\<close> of a dictionary of strings: a new object with the same items.
\<close>

definition deepcopy :: "heap \<Rightarrow> addr \<Rightarrow> addr \<times> heap" where
  "deepcopy h a = (nxt h, h\<lparr>objs := (objs h)(nxt h := objs h a), nxt := Suc (nxt h)\<rparr>)"

text \<open>\<^verbatim>\<open>d[k] = v\<close> on the object at address \<open>a\<close>\<close>

definition setitem :: "heap \<Rightarrow> addr \<Rightarrow> string \<Rightarrow> string \<Rightarrow> heap" where
  "setitem h a k v = h\<lparr>objs := (objs h)(a := dict_setitem (objs h a) k v)\<rparr>"

subsection \<open>\<^verbatim>\<open>BBN_Node\<close>\<close>

record 'p BBN_Node =
  p_table :: "(string \<times> 'p) list"
  label :: string
  parents :: "string list"

definition get_prob :: "('p::{minus,one}) BBN_Node \<Rightarrow> string \<Rightarrow> string \<Rightarrow> error + 'p" where
  "get_prob self val parents_vals =
     (if parents self = [] \<and> parents_vals \<noteq> [] then
        Inl (BadQueryError (''Node '' @ label self @ '' has no parents''))
      else if parents self = [] then
        (case dict_getitem (p_table self) ''t'' of
           Inl e \<Rightarrow> Inl e
         | Inr prob \<Rightarrow> Inr (if val = ''t'' then prob else 1 - prob))
      else
        (case dict_getitem (p_table self) parents_vals of
           Inl e \<Rightarrow> Inl e
         | Inr prob \<Rightarrow> Inr (if val = ''t'' then prob else 1 - prob)))"

definition has_parents :: "'p BBN_Node \<Rightarrow> bool" where
  "has_parents self = (parents self \<noteq> [])"

subsection \<open>\<^verbatim>\<open>BBN\<close>\<close>

record 'p BBN =
  verbose :: bool
  target :: string
  vars :: "string list"
  graph :: "(string \<times> 'p BBN_Node) list"

text \<open>The constructor \<^verbatim>\<open>BBN.__init__(nodes, target, verbose)\<close>.\<close>

definition BBN_init :: "'p BBN_Node list \<Rightarrow> string \<Rightarrow> bool \<Rightarrow> 'p BBN" where
  "BBN_init nodes tgt vb =
     \<lparr> verbose = vb,
       target = tgt,
       vars = map label (filter (\<lambda>node. label node \<noteq> tgt) nodes),
       graph = foldl (\<lambda>g node. dict_setitem g (label node) node) [] nodes \<rparr>"

text \<open>\<^verbatim>\<open>''.join([q[p] for p in cn.parents])\<close>\<close>

fun join_vals :: "pydict \<Rightarrow> string list \<Rightarrow> error + string" where
  "join_vals q [] = Inr []"
| "join_vals q (p # ps) =
     (case dict_getitem q p of
        Inl e \<Rightarrow> Inl e
      | Inr v \<Rightarrow> (case join_vals q ps of Inl e \<Rightarrow> Inl e | Inr s \<Rightarrow> Inr (v @ s)))"

text \<open>
  The loop of \<^verbatim>\<open>_query\<close> over the graph's entries, in insertion order, with the list
  \<^verbatim>\<open>probs\<close> as accumulator.
\<close>

fun query_loop ::
  "(string \<times> ('p::{minus,one}) BBN_Node) list \<Rightarrow> pydict \<Rightarrow> 'p list \<Rightarrow> error + 'p list" where
  "query_loop [] q probs = Inr probs"
| "query_loop ((node, cn) # rest) q probs =
     (if has_parents cn then
        (case join_vals q (parents cn) of
           Inl e \<Rightarrow> Inl e
         | Inr p_vals \<Rightarrow>
             (case dict_getitem q node of
                Inl e \<Rightarrow> Inl e
              | Inr v \<Rightarrow>
                  (case get_prob cn v p_vals of
                     Inl e \<Rightarrow> Inl e
                   | Inr p \<Rightarrow> query_loop rest q (probs @ [p]))))
      else query_loop rest q probs)"

text \<open>
  \<^verbatim>\<open>reduce(lambda x,y: x*y, probs)\<close>: a left fold from the first element, and a
  \<^verbatim>\<open>TypeError\<close> on the empty list, since no initial value is given.
\<close>

definition reduce_mul :: "('p::times) list \<Rightarrow> error + 'p" where
  "reduce_mul probs =
     (case probs of
        [] \<Rightarrow> Inl (TypeError ''reduce() of empty iterable with no initial value'')
      | x # xs \<Rightarrow> Inr (foldl (*) x xs))"

definition query :: "('p::{times,minus,one}) BBN \<Rightarrow> pydict \<Rightarrow> error + 'p" where
  "query self q =
     (case query_loop (graph self) q [] of
        Inl e \<Rightarrow> Inl e
      | Inr probs \<Rightarrow> reduce_mul probs)"

definition get_unknowns :: "'p BBN \<Rightarrow> pydict \<Rightarrow> string list" where
  "get_unknowns self q =
     filter (\<lambda>node. \<not> dict_contains q node \<and> node \<noteq> target self) (map fst (graph self))"

text \<open>
  The inner loop of \<^verbatim>\<open>_build_queries\<close>, \<^verbatim>\<open>for _ in range(len(queries))\<close>: the
  count is fixed when the loop starts; each round pops the leftmost query and appends
  two copies of it. \<^verbatim>\<open>popleft\<close> raises \<^verbatim>\<open>IndexError\<close> on an empty deque.
\<close>

fun build_queries_inner ::
  "nat \<Rightarrow> string \<Rightarrow> heap \<Rightarrow> addr list \<Rightarrow> (error + addr list) \<times> heap" where
  "build_queries_inner 0 u h queries = (Inr queries, h)"
| "build_queries_inner (Suc n) u h queries =
     (case queries of
        [] \<Rightarrow> (Inl (IndexError ''pop from an empty deque''), h)
      | current_query # rest \<Rightarrow>
          (let (tv, h1) = deepcopy h current_query;
               h2 = setitem h1 tv u ''t'';
               (fv, h3) = deepcopy h2 current_query;
               h4 = setitem h3 fv u ''f''
           in build_queries_inner n u h4 (rest @ [tv, fv])))"

fun build_queries_outer ::
  "string list \<Rightarrow> heap \<Rightarrow> addr list \<Rightarrow> (error + addr list) \<times> heap" where
  "build_queries_outer [] h queries = (Inr queries, h)"
| "build_queries_outer (u # us) h queries =
     (case build_queries_inner (length queries) u h queries of
        (Inl e, h') \<Rightarrow> (Inl e, h')
      | (Inr queries', h') \<Rightarrow> build_queries_outer us h' queries')"

definition build_queries :: "heap \<Rightarrow> addr \<Rightarrow> string list \<Rightarrow> (error + addr list) \<times> heap" where
  "build_queries h q unknowns = build_queries_outer unknowns h [q]"

text \<open>\<^verbatim>\<open>sum(xs)\<close>: a left fold that starts from \<open>0\<close>\<close>

definition py_sum :: "('p::{plus,zero}) list \<Rightarrow> 'p" where
  "py_sum xs = foldl (+) 0 xs"

text \<open>The loop of \<^verbatim>\<open>_classify_partial_evidence\<close> over the completions.\<close>

fun score_loop ::
  "('p::{times,minus,one}) BBN \<Rightarrow> addr list \<Rightarrow> heap \<Rightarrow> 'p list \<Rightarrow> 'p list
     \<Rightarrow> (error + 'p list \<times> 'p list) \<times> heap" where
  "score_loop self [] h target_true_probs target_false_probs =
     (Inr (target_true_probs, target_false_probs), h)"
| "score_loop self (qa # queries) h target_true_probs target_false_probs =
     (let h1 = setitem h qa (target self) ''t'' in
      case query self (objs h1 qa) of
        Inl e \<Rightarrow> (Inl e, h1)
      | Inr pt \<Rightarrow>
          (let h2 = setitem h1 qa (target self) ''f'' in
           case query self (objs h2 qa) of
             Inl e \<Rightarrow> (Inl e, h2)
           | Inr pf \<Rightarrow>
               score_loop self queries h2
                 (target_true_probs @ [pt]) (target_false_probs @ [pf])))"

definition classify_partial_evidence ::
  "('p::{times,plus,minus,zero,one,ord}) BBN \<Rightarrow> heap \<Rightarrow> addr \<Rightarrow> string list
     \<Rightarrow> (error + bool) \<times> heap" where
  "classify_partial_evidence self h q unknowns =
     (case build_queries h q unknowns of
        (Inl e, h') \<Rightarrow> (Inl e, h')
      | (Inr queries, h') \<Rightarrow>
          (case score_loop self queries h' [] [] of
             (Inl e, h'') \<Rightarrow> (Inl e, h'')
           | (Inr (target_true_probs, target_false_probs), h'') \<Rightarrow>
               (Inr (py_sum target_false_probs < py_sum target_true_probs), h'')))"

definition classify_all_evidence ::
  "('p::{times,plus,minus,zero,one,ord}) BBN \<Rightarrow> heap \<Rightarrow> addr \<Rightarrow> (error + bool) \<times> heap" where
  "classify_all_evidence self h q =
     (let h1 = setitem h q (target self) ''t'' in
      case query self (objs h1 q) of
        Inl e \<Rightarrow> (Inl e, h1)
      | Inr yes \<Rightarrow>
          (let h2 = setitem h1 q (target self) ''f'' in
           case query self (objs h2 q) of
             Inl e \<Rightarrow> (Inl e, h2)
           | Inr no \<Rightarrow> (Inr (no < yes), h2)))"

text \<open>
  The loop \<^verbatim>\<open>for var in q: if var not in self.graph: raise ...\<close>; the result is the
  exception of the first key that is not in the graph, if there is one.
\<close>

fun check_vars :: "(string \<times> 'v) list \<Rightarrow> string list \<Rightarrow> error option" where
  "check_vars g [] = None"
| "check_vars g (var # rest) =
     (if \<not> dict_contains g var then
        Some (BadQueryError (''Variable: '' @ [CHR 0x22] @ var @ [CHR 0x22] @ '' not in graph''))
      else check_vars g rest)"

definition classify ::
  "('p::{times,plus,minus,zero,one,ord}) BBN \<Rightarrow> heap \<Rightarrow> addr \<Rightarrow> (error + bool) \<times> heap" where
  "classify self h q =
     (if objs h q = [] then (Inl (BadQueryError ''Query is empty''), h)
      else
        (case check_vars (graph self) (map fst (objs h q)) of
           Some e \<Rightarrow> (Inl e, h)
         | None \<Rightarrow>
             (let unknowns = get_unknowns self (objs h q) in
              if unknowns = [] then classify_all_evidence self h q
              else classify_partial_evidence self h q unknowns)))"

subsection \<open>The example network of the module\<close>

definition e_node :: "rat BBN_Node" where
  "e_node = \<lparr> p_table = [(''t'', 7 / 10)], label = ''e'', parents = [] \<rparr>"

definition d_node :: "rat BBN_Node" where
  "d_node = \<lparr> p_table = [(''t'', 1 / 4)], label = ''d'', parents = [] \<rparr>"

definition hd_node :: "rat BBN_Node" where
  "hd_node = \<lparr> p_table = [(''tt'', 1 / 4), (''tf'', 9 / 20), (''ft'', 11 / 20), (''ff'', 3 / 4)],
               label = ''hd'', parents = [''e'', ''d''] \<rparr>"

definition cp_node :: "rat BBN_Node" where
  "cp_node = \<lparr> p_table = [(''t'', 4 / 5), (''f'', 1 / 100)], label = ''cp'', parents = [''hd''] \<rparr>"

definition bp_node :: "rat BBN_Node" where
  "bp_node = \<lparr> p_table = [(''t'', 17 / 20), (''f'', 1 / 5)], label = ''bp'', parents = [''hd''] \<rparr>"

definition bbn :: "rat BBN" where
  "bbn = BBN_init [e_node, d_node, hd_node, cp_node, bp_node] ''hd'' True"

definition example_query :: pydict where
  "example_query = [(''e'', ''f''), (''d'', ''t''), (''cp'', ''t''), (''bp'', ''t'')]"

text \<open>A store that holds one dictionary, at address 0.\<close>

definition heap_of :: "pydict \<Rightarrow> heap" where
  "heap_of d = \<lparr> objs = (\<lambda>_. [])(0 := d), nxt = 1 \<rparr>"

subsection \<open>Further networks used as concrete inputs\<close>

text \<open>The example network with an incomplete table for \<^verbatim>\<open>hd\<close>.\<close>

definition hd_incomplete :: "rat BBN_Node" where
  "hd_incomplete = \<lparr> p_table = [(''tt'', 1 / 4)], label = ''hd'', parents = [''e'', ''d''] \<rparr>"

definition bbn_incomplete :: "rat BBN" where
  "bbn_incomplete = BBN_init [e_node, d_node, hd_incomplete, cp_node, bp_node] ''hd'' False"

text \<open>The example network without its two roots: the parents of \<^verbatim>\<open>hd\<close> name no node.\<close>

definition bbn_dangling :: "rat BBN" where
  "bbn_dangling = BBN_init [hd_node, cp_node, bp_node] ''hd'' False"

text \<open>A network of the two roots only: no node has parents.\<close>

definition bbn_roots :: "rat BBN" where
  "bbn_roots = BBN_init [e_node, d_node] ''e'' False"

text \<open>
  A network in which both values of the target \<^verbatim>\<open>x\<close> are equally likely whatever its
  parent \<^verbatim>\<open>y\<close> is.
\<close>

definition x_node :: "rat BBN_Node" where
  "x_node = \<lparr> p_table = [(''t'', 1 / 2), (''f'', 1 / 2)], label = ''x'', parents = [''y''] \<rparr>"

definition y_node :: "rat BBN_Node" where
  "y_node = \<lparr> p_table = [(''t'', 1 / 2)], label = ''y'', parents = [] \<rparr>"

definition z_node :: "rat BBN_Node" where
  "z_node = \<lparr> p_table = [(''t'', 1 / 2)], label = ''z'', parents = [] \<rparr>"

definition bbn_tie :: "rat BBN" where
  "bbn_tie = BBN_init [y_node, z_node, x_node] ''x'' False"

text \<open>
  A network with two unknowns for the query \<^verbatim>\<open>{z: t}\<close>: the first completion alone favours
  the target false, the four completions together favour the target true.
\<close>

definition w_node :: "rat BBN_Node" where
  "w_node = \<lparr> p_table = [(''t'', 1 / 2)], label = ''w'', parents = [] \<rparr>"

definition v_node :: "rat BBN_Node" where
  "v_node = \<lparr> p_table = [(''tt'', 1 / 4), (''tf'', 9 / 10), (''ft'', 1 / 2), (''ff'', 1 / 2)],
              label = ''v'', parents = [''y'', ''w''] \<rparr>"

definition bbn_sum :: "rat BBN" where
  "bbn_sum = BBN_init [y_node, w_node, z_node, v_node] ''v'' False"

text \<open>The partial-evidence query of the specification: \<^verbatim>\<open>d\<close> is unknown.\<close>

definition partial_query :: pydict where
  "partial_query = [(''e'', ''f''), (''cp'', ''t''), (''bp'', ''t'')]"

section \<open>Specification-level functions\<close>

text \<open>
  The completions of a query over a list of unknowns, as the specification describes
  them: every unknown is bound to true and to false. The definition recurses on the
  unknowns, first to last, and is independent of the store.
\<close>

fun completions :: "pydict \<Rightarrow> string list \<Rightarrow> pydict list" where
  "completions d [] = [d]"
| "completions d (u # us) =
     completions (dict_setitem d u ''t'') us @ completions (dict_setitem d u ''f'') us"

text \<open>The joint score of a completion with the target bound to \<open>b\<close>.\<close>

definition joint_score :: "('p::{times,minus,one}) BBN \<Rightarrow> pydict \<Rightarrow> string \<Rightarrow> error + 'p" where
  "joint_score self c b = query self (dict_setitem c (target self) b)"

text \<open>
  The scores of a list of completions, each scored with the target true and then with
  the target false; the result is the first error, if a scoring fails.
\<close>

fun score_vals :: "('p::{times,minus,one}) BBN \<Rightarrow> pydict list \<Rightarrow> error + 'p list \<times> 'p list" where
  "score_vals self [] = Inr ([], [])"
| "score_vals self (c # cs) =
     (case joint_score self c ''t'' of
        Inl e \<Rightarrow> Inl e
      | Inr pt \<Rightarrow>
          (case joint_score self c ''f'' of
             Inl e \<Rightarrow> Inl e
           | Inr pf \<Rightarrow>
               (case score_vals self cs of
                  Inl e \<Rightarrow> Inl e
                | Inr (ts, fs) \<Rightarrow> Inr (pt # ts, pf # fs))))"

text \<open>One round of doubling, on the values of the dictionaries.\<close>

definition doubled :: "string \<Rightarrow> pydict list \<Rightarrow> pydict list" where
  "doubled u ds = concat (map (\<lambda>d. [dict_setitem d u ''t'', dict_setitem d u ''f'']) ds)"

section \<open>Properties\<close>

subsection \<open>Dictionaries and the store\<close>

lemma dict_setitem_map_of: "map_of (dict_setitem d k v) = (map_of d)(k \<mapsto> v)"
  by (induction d) auto

lemma dict_setitem_twice: "dict_setitem (dict_setitem d k a) k b = dict_setitem d k b"
  by (induction d) auto

lemma length_completions: "length (completions d us) = 2 ^ length us"
  by (induction us arbitrary: d) auto

subsection \<open>query\<close>

lemma query_loop_no_parents:
  "\<forall>(node, cn) \<in> set g. parents cn = [] \<Longrightarrow> query_loop g q probs = Inr probs"
  by (induction g arbitrary: probs) (auto simp: has_parents_def)

lemma query_loop_append:
  "query_loop (g1 @ g2) q probs =
     (case query_loop g1 q probs of Inl e \<Rightarrow> Inl e | Inr probs' \<Rightarrow> query_loop g2 q probs')"
  by (induction g1 arbitrary: probs) (auto split: sum.splits)

lemma query_loop_factors:
  "list_all2 (\<lambda>(node, cn) p. \<exists>v k. dict_getitem q node = Inr v \<and>
       join_vals q (parents cn) = Inr k \<and> get_prob cn v k = Inr p)
     (filter (\<lambda>(node, cn). parents cn \<noteq> []) g) ps
   \<Longrightarrow> query_loop g q probs = Inr (probs @ ps)"
proof (induction g arbitrary: probs ps)
  case Nil
  then show ?case by simp
next
  case (Cons a g)
  obtain node cn where a: "a = (node, cn)" by (cases a)
  show ?case
  proof (cases "parents cn = []")
    case True
    with Cons a show ?thesis by (simp add: has_parents_def)
  next
    case False
    with Cons.prems a obtain p ps' where ps: "ps = p # ps'"
      and p: "\<exists>v k. dict_getitem q node = Inr v \<and> join_vals q (parents cn) = Inr k \<and> get_prob cn v k = Inr p"
      and rest: "list_all2 (\<lambda>(node, cn) p. \<exists>v k. dict_getitem q node = Inr v \<and>
       join_vals q (parents cn) = Inr k \<and> get_prob cn v k = Inr p)
     (filter (\<lambda>(node, cn). parents cn \<noteq> []) g) ps'"
      by (auto simp: list_all2_Cons1)
    from Cons.IH [OF rest] have "query_loop g q (probs @ [p]) = Inr ((probs @ [p]) @ ps')" .
    with p False a ps show ?thesis by (auto simp: has_parents_def)
  qed
qed

lemma get_prob_error:
  "parents cn \<noteq> [] \<Longrightarrow> get_prob cn v k = Inl e \<Longrightarrow> e = KeyError k"
  by (auto simp: get_prob_def dict_getitem_def split: option.splits)

lemma join_vals_error: "join_vals q ps = Inl e \<Longrightarrow> \<exists>k. e = KeyError k"
  by (induction ps arbitrary: e) (auto simp: dict_getitem_def split: option.splits sum.splits)

lemma join_vals_Inr:
  "map (map_of q) ps = map Some vs \<Longrightarrow> join_vals q ps = Inr (concat vs)"
proof (induction ps arbitrary: vs)
  case Nil
  then show ?case by simp
next
  case (Cons p ps)
  then obtain v vs' where "vs = v # vs'" "map_of q p = Some v" "map (map_of q) ps = map Some vs'"
    by (cases vs) auto
  with Cons.IH [of vs'] show ?case by (simp add: dict_getitem_def)
qed

lemma query_loop_error: "query_loop g q probs = Inl e \<Longrightarrow> \<exists>k. e = KeyError k"
proof (induction g arbitrary: probs)
  case Nil
  then show ?case by simp
next
  case (Cons a g)
  obtain node cn where a: "a = (node, cn)" by (cases a)
  show ?case
  proof (cases "parents cn = []")
    case True
    with Cons a show ?thesis by (simp add: has_parents_def)
  next
    case False
    with Cons a show ?thesis
      by (auto simp: has_parents_def dict_getitem_def split: sum.splits option.splits
          dest: join_vals_error get_prob_error)
  qed
qed

lemma query_error: "query self q = Inl e \<Longrightarrow> e \<noteq> BadQueryError m"
  by (auto simp: query_def reduce_mul_def split: sum.splits list.splits dest: query_loop_error)

subsection \<open>build_queries\<close>

lemma build_queries_inner_spec:
  "n \<le> length queries \<Longrightarrow> \<forall>a \<in> set queries. a < nxt h \<Longrightarrow>
   \<exists>news h'. build_queries_inner n u h queries = (Inr (drop n queries @ news), h') \<and>
     length news = 2 * n \<and> distinct news \<and>
     (\<forall>a \<in> set news. nxt h \<le> a \<and> a < nxt h') \<and> nxt h \<le> nxt h' \<and>
     (\<forall>a. a < nxt h \<longrightarrow> objs h' a = objs h a) \<and>
     map (objs h') news = doubled u (map (objs h) (take n queries))"
proof (induction n arbitrary: h queries)
  case 0
  then show ?case by (simp add: doubled_def)
next
  case (Suc n)
  then obtain c rest where q: "queries = c # rest" by (cases queries) auto
  define tv where "tv = nxt h"
  define fv where "fv = Suc (nxt h)"
  define dt where "dt = dict_setitem (objs h c) u ''t''"
  define df where "df = dict_setitem (objs h c) u ''f''"
  define h4 where "h4 = h\<lparr>nxt := Suc (Suc (nxt h)), objs := (objs h)(tv := dt, fv := df)\<rparr>"
  from Suc.prems q have c: "c < nxt h" by simp
  have step: "build_queries_inner (Suc n) u h queries = build_queries_inner n u h4 (rest @ [tv, fv])"
    using c by (simp add: q deepcopy_def setitem_def h4_def tv_def fv_def dt_def df_def Let_def fun_upd_twist)
  have n: "n \<le> length (rest @ [tv, fv])" using Suc.prems q by simp
  have lt: "\<forall>a \<in> set (rest @ [tv, fv]). a < nxt h4"
    using Suc.prems q by (auto simp: h4_def tv_def fv_def)
  from Suc.IH [OF n lt] obtain news h' where
    res: "build_queries_inner n u h4 (rest @ [tv, fv]) = (Inr (drop n (rest @ [tv, fv]) @ news), h')"
    and len: "length news = 2 * n" and dist: "distinct news"
    and fresh: "\<forall>a \<in> set news. nxt h4 \<le> a \<and> a < nxt h'" and mono: "nxt h4 \<le> nxt h'"
    and frame: "\<forall>a. a < nxt h4 \<longrightarrow> objs h' a = objs h4 a"
    and vals: "map (objs h') news = doubled u (map (objs h4) (take n (rest @ [tv, fv])))"
    by blast
  have nr: "n \<le> length rest" using Suc.prems q by simp
  have h4_old: "\<And>a. a < nxt h \<Longrightarrow> objs h4 a = objs h a"
    by (simp add: h4_def tv_def fv_def)
  have nxt4: "nxt h4 = Suc (Suc (nxt h))" by (simp add: h4_def)
  have tvfv: "objs h' tv = dt" "objs h' fv = df"
    using frame by (simp_all add: nxt4 tv_def fv_def h4_def)
  have takeq: "map (objs h4) (take n rest) = map (objs h) (take n rest)"
    using Suc.prems q by (auto simp: h4_old dest!: in_set_takeD)
  let ?news = "[tv, fv] @ news"
  have 1: "build_queries_inner (Suc n) u h queries = (Inr (drop (Suc n) queries @ ?news), h')"
    using step res nr by (simp add: q)
  have 2: "length ?news = 2 * Suc n" using len by simp
  have 3: "distinct ?news" using dist fresh by (auto simp: tv_def fv_def nxt4)
  have 4: "\<forall>a \<in> set ?news. nxt h \<le> a \<and> a < nxt h'"
    using fresh mono by (auto simp: tv_def fv_def nxt4)
  have 5: "nxt h \<le> nxt h'" using mono by (simp add: nxt4)
  have 6: "\<forall>a. a < nxt h \<longrightarrow> objs h' a = objs h a"
    using frame h4_old by (simp add: nxt4)
  have 7: "map (objs h') ?news = doubled u (map (objs h) (take (Suc n) queries))"
    using vals nr takeq tvfv by (simp add: q doubled_def dt_def df_def)
  from 1 2 3 4 5 6 7 show ?case by blast
qed

lemma completions_doubled:
  "concat (map (\<lambda>d. completions d us) (doubled u ds)) = concat (map (\<lambda>d. completions d (u # us)) ds)"
  by (induction ds) (simp_all add: doubled_def)

lemma build_queries_outer_spec:
  "\<forall>a \<in> set queries. a < nxt h \<Longrightarrow> distinct queries \<Longrightarrow>
   \<exists>rs h'. build_queries_outer us h queries = (Inr rs, h') \<and>
     distinct rs \<and> (\<forall>a \<in> set rs. a < nxt h') \<and> nxt h \<le> nxt h' \<and>
     (\<forall>a. a < nxt h \<longrightarrow> objs h' a = objs h a) \<and>
     (us \<noteq> [] \<longrightarrow> (\<forall>a \<in> set rs. nxt h \<le> a)) \<and>
     (us = [] \<longrightarrow> rs = queries \<and> h' = h) \<and>
     map (objs h') rs = concat (map (\<lambda>d. completions d us) (map (objs h) queries))"
proof (induction us arbitrary: h queries)
  case Nil
  have "concat (map (\<lambda>d. [d]) (map (objs h) queries)) = map (objs h) queries"
    by (induction queries) simp_all
  with Nil show ?case by simp
next
  case (Cons u us)
  from build_queries_inner_spec [of "length queries" queries h u] Cons.prems
  obtain news h1 where
    res: "build_queries_inner (length queries) u h queries = (Inr news, h1)"
    and dist: "distinct news"
    and fresh: "\<forall>a \<in> set news. nxt h \<le> a \<and> a < nxt h1" and mono: "nxt h \<le> nxt h1"
    and frame: "\<forall>a. a < nxt h \<longrightarrow> objs h1 a = objs h a"
    and vals: "map (objs h1) news = doubled u (map (objs h) queries)"
    by auto
  have lt: "\<forall>a \<in> set news. a < nxt h1" using fresh by simp
  from Cons.IH [OF lt dist] obtain rs h' where
    res': "build_queries_outer us h1 news = (Inr rs, h')"
    and dist': "distinct rs" and lt': "\<forall>a \<in> set rs. a < nxt h'" and mono': "nxt h1 \<le> nxt h'"
    and frame': "\<forall>a. a < nxt h1 \<longrightarrow> objs h' a = objs h1 a"
    and fresh': "us \<noteq> [] \<longrightarrow> (\<forall>a \<in> set rs. nxt h1 \<le> a)"
    and nil': "us = [] \<longrightarrow> rs = news \<and> h' = h1"
    and vals': "map (objs h') rs = concat (map (\<lambda>d. completions d us) (map (objs h1) news))"
    by blast
  have 1: "build_queries_outer (u # us) h queries = (Inr rs, h')"
    using res res' by simp
  have 2: "nxt h \<le> nxt h'" using mono mono' by simp
  have 3: "\<forall>a. a < nxt h \<longrightarrow> objs h' a = objs h a"
    using frame frame' mono by simp
  have 4: "\<forall>a \<in> set rs. nxt h \<le> a"
  proof (cases "us = []")
    case True
    with nil' fresh show ?thesis by simp
  next
    case False
    with fresh' mono show ?thesis by fastforce
  qed
  have 5: "map (objs h') rs = concat (map (\<lambda>d. completions d (u # us)) (map (objs h) queries))"
    using vals' vals completions_doubled [of us u "map (objs h) queries"] by simp
  from 1 dist' lt' 2 3 4 5 show ?case by simp
qed

lemma build_queries_spec:
  assumes "q < nxt h"
  shows "\<exists>rs h'. build_queries h q us = (Inr rs, h') \<and>
     distinct rs \<and> (\<forall>a \<in> set rs. a < nxt h') \<and> nxt h \<le> nxt h' \<and>
     (\<forall>a. a < nxt h \<longrightarrow> objs h' a = objs h a) \<and>
     (us \<noteq> [] \<longrightarrow> (\<forall>a \<in> set rs. nxt h \<le> a)) \<and>
     (us = [] \<longrightarrow> rs = [q] \<and> h' = h) \<and>
     map (objs h') rs = completions (objs h q) us"
  using build_queries_outer_spec [of "[q]" h us] assms by (simp add: build_queries_def)

subsection \<open>score_loop\<close>

lemma score_loop_spec:
  "distinct rs \<Longrightarrow>
   \<exists>h'. score_loop self rs h ts fs =
     ((case score_vals self (map (objs h) rs) of
         Inl e \<Rightarrow> Inl e
       | Inr (a, b) \<Rightarrow> Inr (ts @ a, fs @ b)), h') \<and>
     nxt h' = nxt h \<and> (\<forall>a. a \<notin> set rs \<longrightarrow> objs h' a = objs h a)"
proof (induction rs arbitrary: h ts fs)
  case Nil
  then show ?case by simp
next
  case (Cons r rs)
  define h1 where "h1 = setitem h r (target self) ''t''"
  define h2 where "h2 = setitem h1 r (target self) ''f''"
  have o1: "objs h1 r = dict_setitem (objs h r) (target self) ''t''"
    by (simp add: h1_def setitem_def)
  have o2: "objs h2 r = dict_setitem (objs h r) (target self) ''f''"
    by (simp add: h2_def h1_def setitem_def dict_setitem_twice)
  have other: "\<And>a. a \<noteq> r \<Longrightarrow> objs h2 a = objs h a" "\<And>a. a \<noteq> r \<Longrightarrow> objs h1 a = objs h a"
    by (simp_all add: h2_def h1_def setitem_def)
  have nx: "nxt h2 = nxt h" "nxt h1 = nxt h" by (simp_all add: h2_def h1_def setitem_def)
  have same: "map (objs h2) rs = map (objs h) rs"
  proof (rule map_cong [OF refl])
    fix x assume "x \<in> set rs"
    with Cons.prems have "x \<noteq> r" by auto
    then show "objs h2 x = objs h x" by (rule other(1))
  qed
  from Cons.prems have "distinct rs" by simp
  from Cons.IH [OF this, of h2] obtain h' where
    ih: "\<And>ts fs. \<exists>h'. score_loop self rs h2 ts fs =
      ((case score_vals self (map (objs h2) rs) of Inl e \<Rightarrow> Inl e
        | Inr (a, b) \<Rightarrow> Inr (ts @ a, fs @ b)), h') \<and> nxt h' = nxt h2 \<and>
         (\<forall>a. a \<notin> set rs \<longrightarrow> objs h' a = objs h2 a)"
    by blast
  show ?case
  proof (cases "joint_score self (objs h r) ''t''")
    case (Inl e)
    then show ?thesis
      using o1 other nx by (auto simp: joint_score_def h1_def [symmetric] Let_def)
  next
    case t: (Inr pt)
    show ?thesis
    proof (cases "joint_score self (objs h r) ''f''")
      case (Inl e)
      then show ?thesis
        using t o1 o2 other nx
        by (auto simp: joint_score_def h1_def [symmetric] h2_def [symmetric] Let_def)
    next
      case f: (Inr pf)
      from ih [of "ts @ [pt]" "fs @ [pf]"] obtain h' where
        r: "score_loop self rs h2 (ts @ [pt]) (fs @ [pf]) =
          ((case score_vals self (map (objs h2) rs) of Inl e \<Rightarrow> Inl e
            | Inr (a, b) \<Rightarrow> Inr ((ts @ [pt]) @ a, (fs @ [pf]) @ b)), h')"
        and n': "nxt h' = nxt h2" and fr: "\<forall>a. a \<notin> set rs \<longrightarrow> objs h' a = objs h2 a"
        by blast
      have "score_loop self (r # rs) h ts fs = score_loop self rs h2 (ts @ [pt]) (fs @ [pf])"
        using t f o1 o2 by (simp add: joint_score_def h1_def [symmetric] h2_def [symmetric] Let_def)
      with r n' fr same t f nx other show ?thesis
        by (auto split: sum.splits)
    qed
  qed
qed

lemma score_vals_InrD:
  "score_vals self cs = Inr (ts, fs) \<Longrightarrow>
     map (\<lambda>c. joint_score self c ''t'') cs = map Inr ts \<and>
     map (\<lambda>c. joint_score self c ''f'') cs = map Inr fs"
  by (induction cs arbitrary: ts fs) (auto split: sum.splits)

lemma score_vals_InrI:
  "map (\<lambda>c. joint_score self c ''t'') cs = map Inr ts \<Longrightarrow>
   map (\<lambda>c. joint_score self c ''f'') cs = map Inr fs \<Longrightarrow>
   score_vals self cs = Inr (ts, fs)"
proof (induction cs arbitrary: ts fs)
  case Nil
  then show ?case by simp
next
  case (Cons c cs)
  from Cons.prems obtain pt ts' pf fs' where
    ts: "ts = pt # ts'" and fs: "fs = pf # fs'" by (cases ts; cases fs) auto
  with Cons.prems Cons.IH [of ts' fs'] show ?case by simp
qed

lemma completions_maps_iff:
  "m \<in> map_of ` set (completions d us) \<longleftrightarrow>
     (\<forall>x. x \<notin> set us \<longrightarrow> m x = map_of d x) \<and>
     (\<forall>u \<in> set us. m u = Some ''t'' \<or> m u = Some ''f'')"
proof (induction us arbitrary: d)
  case Nil
  show ?case by auto
next
  case (Cons u us)
  show ?case
    by (auto simp: image_Un Cons.IH dict_setitem_map_of)
qed

lemma completions_distinct:
  "distinct us \<Longrightarrow> distinct (map map_of (completions d us))"
proof (induction us arbitrary: d)
  case Nil
  show ?case by simp
next
  case (Cons u us)
  have "m \<in> map_of ` set (completions (dict_setitem d u ''t'') us) \<Longrightarrow>
        m \<in> map_of ` set (completions (dict_setitem d u ''f'') us) \<Longrightarrow> False" for m
    using Cons.prems unfolding completions_maps_iff by (auto simp: dict_setitem_map_of)
  with Cons show ?case by auto
qed

subsection \<open>totality of build_queries, errors of the scoring loop\<close>

lemma build_queries_inner_total:
  "n \<le> length queries \<Longrightarrow>
   \<exists>rs h'. build_queries_inner n u h queries = (Inr rs, h') \<and> length rs = length queries + n"
proof (induction n arbitrary: h queries)
  case 0
  then show ?case by simp
next
  case (Suc n)
  then obtain c rest where q: "queries = c # rest" by (cases queries) auto
  obtain tv h1 where d1: "deepcopy h c = (tv, h1)" by (cases "deepcopy h c")
  obtain fv h3 where d2: "deepcopy (setitem h1 tv u ''t'') c = (fv, h3)"
    by (cases "deepcopy (setitem h1 tv u ''t'') c")
  have "n \<le> length (rest @ [tv, fv])" using Suc.prems q by simp
  from Suc.IH [OF this, of "setitem h3 fv u ''f''"] show ?case
    by (auto simp: q d1 d2)
qed

lemma build_queries_outer_total:
  "queries \<noteq> [] \<Longrightarrow>
   \<exists>rs h'. build_queries_outer us h queries = (Inr rs, h') \<and> rs \<noteq> []"
proof (induction us arbitrary: h queries)
  case Nil
  then show ?case by simp
next
  case (Cons u us)
  from build_queries_inner_total [of "length queries" queries u h]
  obtain rs h1 where r: "build_queries_inner (length queries) u h queries = (Inr rs, h1)"
    and l: "length rs = length queries + length queries" by auto
  from l Cons.prems have "rs \<noteq> []" by auto
  from Cons.IH [OF this, of h1] r show ?case by auto
qed

lemma build_queries_total: "\<exists>rs h'. build_queries h q us = (Inr rs, h') \<and> rs \<noteq> []"
  unfolding build_queries_def by (rule build_queries_outer_total) simp

lemma score_loop_error:
  "score_loop self rs h ts fs = (Inl e, h') \<Longrightarrow> \<exists>d. query self d = Inl e"
proof (induction rs arbitrary: h ts fs)
  case Nil
  then show ?case by simp
next
  case (Cons r rs)
  then show ?case
    by (auto simp: Let_def split: sum.splits)
qed

lemma score_loop_first_fails:
  "\<forall>d. query self d = Inl e \<Longrightarrow> rs \<noteq> [] \<Longrightarrow> fst (score_loop self rs h ts fs) = Inl e"
  by (cases rs) (auto simp: Let_def)

lemma query_no_parents:
  "\<forall>(node, cn) \<in> set (graph self). parents cn = [] \<Longrightarrow>
   query self d = Inl (TypeError ''reduce() of empty iterable with no initial value'')"
  by (simp add: query_def query_loop_no_parents reduce_mul_def)

subsection \<open>classify, path by path\<close>

lemma setitem_twice: "setitem (setitem h a k v) a k w = setitem h a k w"
  by (simp add: setitem_def dict_setitem_twice)

lemma objs_setitem: "objs (setitem h a k v) b = (if b = a then dict_setitem (objs h a) k v else objs h b)"
  by (simp add: setitem_def)

lemma classify_all_evidence_char:
  "classify_all_evidence self h q =
     (case joint_score self (objs h q) ''t'' of
        Inl e \<Rightarrow> (Inl e, setitem h q (target self) ''t'')
      | Inr yes \<Rightarrow>
          (case joint_score self (objs h q) ''f'' of
             Inl e \<Rightarrow> (Inl e, setitem h q (target self) ''f'')
           | Inr no \<Rightarrow> (Inr (no < yes), setitem h q (target self) ''f'')))"
  by (simp add: classify_all_evidence_def joint_score_def Let_def objs_setitem setitem_twice
      dict_setitem_twice split: sum.splits)

lemma classify_partial_evidence_char:
  assumes "q < nxt h" and "us \<noteq> []"
  shows "fst (classify_partial_evidence self h q us) =
     (case score_vals self (completions (objs h q) us) of
        Inl e \<Rightarrow> Inl e
      | Inr (ts, fs) \<Rightarrow> Inr (py_sum fs < py_sum ts))"
    and "\<forall>a. a < nxt h \<longrightarrow> objs (snd (classify_partial_evidence self h q us)) a = objs h a"
proof -
  from build_queries_spec [OF assms(1), of us] assms(2) obtain rs h1 where
    b: "build_queries h q us = (Inr rs, h1)" and dist: "distinct rs"
    and fresh: "\<forall>a \<in> set rs. nxt h \<le> a"
    and frame: "\<forall>a. a < nxt h \<longrightarrow> objs h1 a = objs h a"
    and vals: "map (objs h1) rs = completions (objs h q) us"
    by blast
  from score_loop_spec [OF dist, of self h1 "[]" "[]"] obtain h2 where
    s: "score_loop self rs h1 [] [] =
      ((case score_vals self (map (objs h1) rs) of Inl e \<Rightarrow> Inl e
        | Inr (a, b) \<Rightarrow> Inr ([] @ a, [] @ b)), h2)"
    and frame2: "\<forall>a. a \<notin> set rs \<longrightarrow> objs h2 a = objs h1 a"
    by blast
  have snd_eq: "snd (classify_partial_evidence self h q us) = h2"
    using b s by (simp add: classify_partial_evidence_def split: sum.splits prod.splits)
  show "fst (classify_partial_evidence self h q us) =
     (case score_vals self (completions (objs h q) us) of
        Inl e \<Rightarrow> Inl e
      | Inr (ts, fs) \<Rightarrow> Inr (py_sum fs < py_sum ts))"
    using b s vals by (simp add: classify_partial_evidence_def split: sum.splits prod.splits)
  show "\<forall>a. a < nxt h \<longrightarrow> objs (snd (classify_partial_evidence self h q us)) a = objs h a"
  proof (intro allI impI)
    fix a assume a: "a < nxt h"
    with fresh have "a \<notin> set rs" by auto
    with frame2 frame a show "objs (snd (classify_partial_evidence self h q us)) a = objs h a"
      by (simp add: snd_eq)
  qed
qed

lemma classify_valid:
  "objs h q \<noteq> [] \<Longrightarrow> check_vars (graph self) (map fst (objs h q)) = None \<Longrightarrow>
   classify self h q =
     (if get_unknowns self (objs h q) = [] then classify_all_evidence self h q
      else classify_partial_evidence self h q (get_unknowns self (objs h q)))"
  by (simp add: classify_def Let_def)

lemma score_vals_first_error:
  "\<forall>c' \<in> set pre. \<exists>x y. joint_score self c' ''t'' = Inr x \<and> joint_score self c' ''f'' = Inr y \<Longrightarrow>
   joint_score self c ''t'' = Inl e \<or>
     (\<exists>x. joint_score self c ''t'' = Inr x \<and> joint_score self c ''f'' = Inl e) \<Longrightarrow>
   score_vals self (pre @ c # post) = Inl e"
  by (induction pre) (auto split: sum.splits)

lemma check_vars_None: "check_vars g ks = None \<longleftrightarrow> (\<forall>k \<in> set ks. dict_contains g k)"
  by (induction ks) auto

lemma check_vars_Some:
  "check_vars g ks = Some e \<Longrightarrow>
   \<exists>var \<in> set ks. \<not> dict_contains g var \<and>
     e = BadQueryError (''Variable: '' @ [CHR 0x22] @ var @ [CHR 0x22] @ '' not in graph'')"
  by (induction ks) (auto split: if_splits)

lemma classify_error:
  fixes self :: "('p::{times,plus,minus,zero,one,ord}) BBN"
  assumes "objs h q \<noteq> []"
    and "check_vars (graph self) (map fst (objs h q)) = None"
    and "q < nxt h"
    and "score_vals self (completions (objs h q) (get_unknowns self (objs h q))) = Inl e"
  shows "fst (classify self h q) = Inl e"
proof (cases "get_unknowns self (objs h q) = []")
  case True
  with assms(4) have "score_vals self [objs h q] = Inl e" by simp
  then have "fst (classify_all_evidence self h q) = Inl e"
    by (auto simp: classify_all_evidence_char split: sum.splits)
  with True assms(1,2) show ?thesis by (simp add: classify_valid)
next
  case False
  with assms show ?thesis
    by (simp add: classify_valid classify_partial_evidence_char(1))
qed

subsection \<open>Unfolding the concrete inputs\<close>

lemmas example_defs =
  bbn_def BBN_init_def e_node_def d_node_def hd_node_def cp_node_def bp_node_def
  example_query_def heap_of_def

lemmas code_defs =
  query_def has_parents_def dict_getitem_def get_prob_def reduce_mul_def classify_def
  dict_contains_def get_unknowns_def classify_all_evidence_def setitem_def joint_score_def

subsection \<open>The decision on the partial-evidence path\<close>

lemma classify_partial_evidence_decision:
  fixes self :: "('p::{times,plus,minus,zero,one,preorder}) BBN"
  assumes "objs h q \<noteq> []"
    and "check_vars (graph self) (map fst (objs h q)) = None"
    and "q < nxt h"
    and "get_unknowns self (objs h q) = us"
    and "us \<noteq> []"
  shows "length (completions (objs h q) us) = 2 ^ length us
    \<and> (fst (classify self h q) = Inr True \<longleftrightarrow>
         (\<exists>ts fs. map (\<lambda>c. joint_score self c ''t'') (completions (objs h q) us) = map Inr ts
                \<and> map (\<lambda>c. joint_score self c ''f'') (completions (objs h q) us) = map Inr fs
                \<and> py_sum fs < py_sum ts))
    \<and> (\<forall>ts fs. map (\<lambda>c. joint_score self c ''t'') (completions (objs h q) us) = map Inr ts
              \<and> map (\<lambda>c. joint_score self c ''f'') (completions (objs h q) us) = map Inr fs
              \<and> py_sum ts = py_sum fs
          \<longrightarrow> fst (classify self h q) = Inr False)"
proof -
  let ?cs = "completions (objs h q) us"
  have c: "fst (classify self h q) =
     (case score_vals self ?cs of
        Inl e \<Rightarrow> Inl e
      | Inr (ts, fs) \<Rightarrow> Inr (py_sum fs < py_sum ts))"
    using assms by (simp add: classify_valid classify_partial_evidence_char(1))
  have 1: "length ?cs = 2 ^ length us" by (rule length_completions)
  have 2: "fst (classify self h q) = Inr True \<longleftrightarrow>
         (\<exists>ts fs. map (\<lambda>c. joint_score self c ''t'') ?cs = map Inr ts
                \<and> map (\<lambda>c. joint_score self c ''f'') ?cs = map Inr fs
                \<and> py_sum fs < py_sum ts)"
  proof
    assume t: "fst (classify self h q) = Inr True"
    then obtain ts fs where s: "score_vals self ?cs = Inr (ts, fs)" and lt: "py_sum fs < py_sum ts"
      unfolding c by (auto split: sum.splits)
    from score_vals_InrD [OF s] lt
    show "\<exists>ts fs. map (\<lambda>c. joint_score self c ''t'') ?cs = map Inr ts
                \<and> map (\<lambda>c. joint_score self c ''f'') ?cs = map Inr fs
                \<and> py_sum fs < py_sum ts" by blast
  next
    assume "\<exists>ts fs. map (\<lambda>c. joint_score self c ''t'') ?cs = map Inr ts
                \<and> map (\<lambda>c. joint_score self c ''f'') ?cs = map Inr fs
                \<and> py_sum fs < py_sum ts"
    then obtain ts fs where m: "map (\<lambda>c. joint_score self c ''t'') ?cs = map Inr ts"
      "map (\<lambda>c. joint_score self c ''f'') ?cs = map Inr fs" and lt: "py_sum fs < py_sum ts"
      by blast
    from score_vals_InrI [OF m] lt show "fst (classify self h q) = Inr True"
      unfolding c by simp
  qed
  have 3: "\<forall>ts fs. map (\<lambda>c. joint_score self c ''t'') ?cs = map Inr ts
              \<and> map (\<lambda>c. joint_score self c ''f'') ?cs = map Inr fs
              \<and> py_sum ts = py_sum fs
          \<longrightarrow> fst (classify self h q) = Inr False"
  proof (intro allI impI, elim conjE)
    fix ts fs
    assume m: "map (\<lambda>c. joint_score self c ''t'') ?cs = map Inr ts"
      "map (\<lambda>c. joint_score self c ''f'') ?cs = map Inr fs" and eq: "py_sum ts = py_sum fs"
    from score_vals_InrI [OF m] eq show "fst (classify self h q) = Inr False"
      unfolding c by simp
  qed
  from 1 2 3 show ?thesis by blast
qed

section \<open>The claims\<close>

text \<open>
  Claim C1. Let the query be non-empty with every key a label of the graph, and let \<open>us\<close>,
  the labels of the graph that are neither keys of the query nor the target, be
  non-empty, \<open>k\<close> of them. Then \<open>classify\<close> returns true exactly when every one of the
  \<open>2 ^ k\<close> completions of the query over \<open>us\<close> has a score with the target bound true
  and one with the target bound false, and the sum of all the former, added up from 0 in
  the order of the completions, is strictly greater than the sum of all the latter. When
  the two sums are equal the result is false.
\<close>

theorem classify_partial_evidence_sums:
  fixes self :: "('p::{times,plus,minus,zero,one,preorder}) BBN"
  assumes "objs h q \<noteq> []"
    and "\<forall>var \<in> set (map fst (objs h q)). var \<in> set (map fst (graph self))"
    and "q < nxt h"
    and "us = filter (\<lambda>node. node \<notin> set (map fst (objs h q)) \<and> node \<noteq> target self)
                (map fst (graph self))"
    and "us \<noteq> []"
  shows "length (completions (objs h q) us) = 2 ^ length us
    \<and> (fst (classify self h q) = Inr True \<longleftrightarrow>
         (\<exists>ts fs.
            map (\<lambda>c. query self (dict_setitem c (target self) ''t'')) (completions (objs h q) us)
              = map Inr ts
          \<and> map (\<lambda>c. query self (dict_setitem c (target self) ''f'')) (completions (objs h q) us)
              = map Inr fs
          \<and> foldl (+) 0 fs < foldl (+) 0 ts))
    \<and> (\<forall>ts fs.
            map (\<lambda>c. query self (dict_setitem c (target self) ''t'')) (completions (objs h q) us)
              = map Inr ts
          \<and> map (\<lambda>c. query self (dict_setitem c (target self) ''f'')) (completions (objs h q) us)
              = map Inr fs
          \<and> foldl (+) 0 ts = foldl (+) 0 fs
          \<longrightarrow> fst (classify self h q) = Inr False)"
proof -
  have c: "check_vars (graph self) (map fst (objs h q)) = None"
    using assms(2) by (simp only: check_vars_None dict_contains_def)
  have u: "get_unknowns self (objs h q) = us"
    by (simp only: assms(4) get_unknowns_def dict_contains_def)
  from classify_partial_evidence_decision [OF assms(1) c assms(3) u assms(5)]
  show ?thesis unfolding joint_score_def py_sum_def .
qed

theorem classify_partial_evidence_sums_witness:
  "fst (classify bbn (heap_of partial_query) 0) = Inr True
   \<and> fst (classify bbn_sum (heap_of [(''z'', ''t'')]) 0) = Inr True
   \<and> fst (classify bbn_tie (heap_of [(''z'', ''t'')]) 0) = Inr False"
proof -
  have g: "graph bbn =
     [(''e'', e_node), (''d'', d_node), (''hd'', hd_node), (''cp'', cp_node), (''bp'', bp_node)]"
    by (simp add: example_defs)
  have t: "target bbn = ''hd''" by (simp add: bbn_def BBN_init_def)
  have o: "objs (heap_of partial_query) 0 = partial_query" by (simp add: heap_of_def)
  have 1: "objs (heap_of partial_query) 0 \<noteq> []" by (simp add: heap_of_def partial_query_def)
  have 2: "\<forall>var \<in> set (map fst (objs (heap_of partial_query) 0)). var \<in> set (map fst (graph bbn))"
    by (simp add: g heap_of_def partial_query_def)
  have 3: "0 < nxt (heap_of partial_query)" by (simp add: heap_of_def)
  have 4: "[''d''] = filter (\<lambda>node. node \<notin> set (map fst (objs (heap_of partial_query) 0))
                 \<and> node \<noteq> target bbn) (map fst (graph bbn))"
    by (simp add: g t heap_of_def partial_query_def)
  have 5: "[''d''] \<noteq> []" by simp
  have a: "map (\<lambda>c. query bbn (dict_setitem c (target bbn) ''t'')) (completions partial_query [''d''])
      = map Inr [187 / 500, 51 / 100]"
    by (simp add: query_def g t partial_query_def has_parents_def
        e_node_def d_node_def hd_node_def cp_node_def bp_node_def dict_getitem_def get_prob_def
        reduce_mul_def)
  have b: "map (\<lambda>c. query bbn (dict_setitem c (target bbn) ''f'')) (completions partial_query [''d''])
      = map Inr [9 / 10000, 1 / 2000]"
    by (simp add: query_def g t partial_query_def has_parents_def
        e_node_def d_node_def hd_node_def cp_node_def bp_node_def dict_getitem_def get_prob_def
        reduce_mul_def)
  have s: "foldl (+) 0 [9 / 10000, 1 / 2000 :: rat] < foldl (+) 0 [187 / 500, 51 / 100]"
    by simp
  have first: "fst (classify bbn (heap_of partial_query) 0) = Inr True"
    using classify_partial_evidence_sums [OF 1 2 3 4 5] a b s unfolding o by blast

  have gs: "graph bbn_sum = [(''y'', y_node), (''w'', w_node), (''z'', z_node), (''v'', v_node)]"
    by (simp add: bbn_sum_def BBN_init_def v_node_def w_node_def y_node_def z_node_def)
  have ts: "target bbn_sum = ''v''" by (simp add: bbn_sum_def BBN_init_def)
  have oz: "objs (heap_of [(''z'', ''t'')]) 0 = [(''z'', ''t'')]" by (simp add: heap_of_def)
  have z1: "objs (heap_of [(''z'', ''t'')]) 0 \<noteq> []" by (simp add: heap_of_def)
  have z3: "0 < nxt (heap_of [(''z'', ''t'')])" by (simp add: heap_of_def)
  have s2: "\<forall>var \<in> set (map fst (objs (heap_of [(''z'', ''t'')]) 0)).
      var \<in> set (map fst (graph bbn_sum))"
    by (simp add: gs heap_of_def)
  have s4: "[''y'', ''w''] = filter (\<lambda>node. node \<notin> set (map fst (objs (heap_of [(''z'', ''t'')]) 0))
                 \<and> node \<noteq> target bbn_sum) (map fst (graph bbn_sum))"
    by (simp add: gs ts heap_of_def)
  have s5: "[''y'', ''w''] \<noteq> []" by simp
  have sa: "map (\<lambda>c. query bbn_sum (dict_setitem c (target bbn_sum) ''t''))
        (completions [(''z'', ''t'')] [''y'', ''w''])
      = map Inr [1 / 4, 9 / 10, 1 / 2, 1 / 2]"
    by (simp add: query_def gs ts has_parents_def
        v_node_def w_node_def y_node_def z_node_def dict_getitem_def get_prob_def reduce_mul_def)
  have sb: "map (\<lambda>c. query bbn_sum (dict_setitem c (target bbn_sum) ''f''))
        (completions [(''z'', ''t'')] [''y'', ''w''])
      = map Inr [3 / 4, 1 / 10, 1 / 2, 1 / 2]"
    by (simp add: query_def gs ts has_parents_def
        v_node_def w_node_def y_node_def z_node_def dict_getitem_def get_prob_def reduce_mul_def)
  have ss: "foldl (+) 0 [3 / 4, 1 / 10, 1 / 2, 1 / 2 :: rat] < foldl (+) 0 [1 / 4, 9 / 10, 1 / 2, 1 / 2]"
    by simp
  have second: "fst (classify bbn_sum (heap_of [(''z'', ''t'')]) 0) = Inr True"
    using classify_partial_evidence_sums [OF z1 s2 z3 s4 s5] sa sb ss unfolding oz by blast

  have gt: "graph bbn_tie = [(''y'', y_node), (''z'', z_node), (''x'', x_node)]"
    by (simp add: bbn_tie_def BBN_init_def x_node_def y_node_def z_node_def)
  have tt: "target bbn_tie = ''x''" by (simp add: bbn_tie_def BBN_init_def)
  have t2: "\<forall>var \<in> set (map fst (objs (heap_of [(''z'', ''t'')]) 0)).
      var \<in> set (map fst (graph bbn_tie))"
    by (simp add: gt heap_of_def)
  have t4: "[''y''] = filter (\<lambda>node. node \<notin> set (map fst (objs (heap_of [(''z'', ''t'')]) 0))
                 \<and> node \<noteq> target bbn_tie) (map fst (graph bbn_tie))"
    by (simp add: gt tt heap_of_def)
  have t5: "[''y''] \<noteq> []" by simp
  have ta: "map (\<lambda>c. query bbn_tie (dict_setitem c (target bbn_tie) ''t''))
        (completions [(''z'', ''t'')] [''y''])
      = map Inr [1 / 2, 1 / 2]"
    by (simp add: query_def gt tt has_parents_def
        x_node_def y_node_def z_node_def dict_getitem_def get_prob_def reduce_mul_def)
  have tb: "map (\<lambda>c. query bbn_tie (dict_setitem c (target bbn_tie) ''f''))
        (completions [(''z'', ''t'')] [''y''])
      = map Inr [1 / 2, 1 / 2]"
    by (simp add: query_def gt tt has_parents_def
        x_node_def y_node_def z_node_def dict_getitem_def get_prob_def reduce_mul_def)
  have third: "fst (classify bbn_tie (heap_of [(''z'', ''t'')]) 0) = Inr False"
    using classify_partial_evidence_sums [OF z1 t2 z3 t4 t5] ta tb unfolding oz by blast
  from first second third show ?thesis by simp
qed

text \<open>
  Claim C2, as stated, fails for a network in which no node has parents: in the network
  of the two roots \<^verbatim>\<open>e\<close> and \<^verbatim>\<open>d\<close> the assignment \<^verbatim>\<open>{e: t, d: t}\<close> binds every
  variable and there is no factor, but the evaluator returns no score: \<^verbatim>\<open>reduce\<close> has no
  initial value and raises \<open>TypeError\<close> on the empty list.
\<close>

theorem query_no_factor_counterexample:
  "filter (\<lambda>(node, cn). parents cn \<noteq> []) (graph bbn_roots) = []
   \<and> map (map_of [(''e'', ''t''), (''d'', ''t'')]) (map fst (graph bbn_roots)) = [Some ''t'', Some ''t'']
   \<and> query bbn_roots [(''e'', ''t''), (''d'', ''t'')]
        = Inl (TypeError ''reduce() of empty iterable with no initial value'')"
  by (simp add: bbn_roots_def example_defs code_defs)

text \<open>
  Claim C2, amended. Let \<open>ps\<close> be the conditional probabilities
  \<open>get_prob cn (q[node]) (the values of the parents of cn under q, concatenated)\<close> of
  exactly the nodes with a non-empty parent list, in the order of the graph. When there
  is at least one, the score of the assignment \<open>q\<close> is their product, multiplied from
  the left; nodes without parents contribute no factor. When there is none, the
  evaluator fails with \<open>TypeError\<close>.
\<close>

theorem query_is_product_of_factors:
  assumes "list_all2 (\<lambda>(node, cn) p. \<exists>v vs. map_of q node = Some v \<and>
       map (map_of q) (parents cn) = map Some vs \<and> get_prob cn v (concat vs) = Inr p)
     (filter (\<lambda>(node, cn). parents cn \<noteq> []) (graph self)) ps"
  shows "query self q =
     (case ps of
        [] \<Rightarrow> Inl (TypeError ''reduce() of empty iterable with no initial value'')
      | p # ps' \<Rightarrow> Inr (foldl (*) p ps'))"
proof -
  have "list_all2 (\<lambda>(node, cn) p. \<exists>v k. dict_getitem q node = Inr v \<and>
       join_vals q (parents cn) = Inr k \<and> get_prob cn v k = Inr p)
     (filter (\<lambda>(node, cn). parents cn \<noteq> []) (graph self)) ps"
    using assms
    by (rule list_all2_mono) (auto simp: dict_getitem_def dest: join_vals_Inr)
  from query_loop_factors [OF this, of "[]"] show ?thesis
    by (simp add: query_def reduce_mul_def)
qed

theorem query_is_product_of_factors_witness:
  "query bbn (dict_setitem example_query ''hd'' ''t'') = Inr (foldl (*) (11 / 20) [4 / 5, 17 / 20])
   \<and> query bbn_roots [(''e'', ''t''), (''d'', ''t'')]
        = Inl (TypeError ''reduce() of empty iterable with no initial value'')"
proof -
  have h: "list_all2 (\<lambda>(node, cn) p. \<exists>v vs.
         map_of (dict_setitem example_query ''hd'' ''t'') node = Some v \<and>
         map (map_of (dict_setitem example_query ''hd'' ''t'')) (parents cn) = map Some vs \<and>
         get_prob cn v (concat vs) = Inr p)
     (filter (\<lambda>(node, cn). parents cn \<noteq> []) (graph bbn)) [11 / 20, 4 / 5, 17 / 20]"
    by (simp add: example_defs dict_getitem_def get_prob_def Cons_eq_map_conv)
  have r: "list_all2 (\<lambda>(node, cn) p. \<exists>v vs.
         map_of [(''e'', ''t''), (''d'', ''t'')] node = Some v \<and>
         map (map_of [(''e'', ''t''), (''d'', ''t'')]) (parents cn) = map Some vs \<and>
         get_prob cn v (concat vs) = Inr p)
     (filter (\<lambda>(node, cn). parents cn \<noteq> []) (graph bbn_roots)) []"
    by (simp add: bbn_roots_def example_defs)
  from query_is_product_of_factors [OF h] query_is_product_of_factors [OF r]
  show ?thesis by simp
qed

text \<open>
  Claim C3. For a query object \<open>q\<close> of the store and a list \<open>us\<close> of \<open>k\<close> unknowns,
  \<open>build_queries\<close> returns \<open>2 ^ k\<close> dictionaries; their values are the completions of
  the query, and as mappings they are exactly those that agree with the query outside
  \<open>us\<close> and bind every unknown to \<^verbatim>\<open>'t'\<close> or \<^verbatim>\<open>'f'\<close>. For pairwise different unknowns
  the \<open>2 ^ k\<close> mappings are pairwise different. The dictionaries are separate objects:
  their addresses are distinct, so an assignment into one leaves every other one as it
  was, and for \<open>k > 0\<close> none of them is the query object, which keeps its value. For
  \<open>k = 0\<close> the result is the one query itself.
\<close>

theorem build_queries_completions:
  assumes "q < nxt h"
  shows "\<exists>rs h'. build_queries h q us = (Inr rs, h')
     \<and> length rs = 2 ^ length us
     \<and> map (objs h') rs = completions (objs h q) us
     \<and> map_of ` objs h' ` set rs =
         {m. (\<forall>x. x \<notin> set us \<longrightarrow> m x = map_of (objs h q) x) \<and>
             (\<forall>u \<in> set us. m u = Some ''t'' \<or> m u = Some ''f'')}
     \<and> (distinct us \<longrightarrow> distinct (map (\<lambda>r. map_of (objs h' r)) rs))
     \<and> distinct rs
     \<and> (\<forall>r \<in> set rs. \<forall>r' \<in> set rs. r \<noteq> r' \<longrightarrow>
           (\<forall>k v. objs (setitem h' r k v) r' = objs h' r'))
     \<and> (us \<noteq> [] \<longrightarrow> q \<notin> set rs)
     \<and> objs h' q = objs h q
     \<and> (us = [] \<longrightarrow> rs = [q] \<and> h' = h)"
proof -
  from build_queries_spec [OF assms, of us] obtain rs h' where
    b: "build_queries h q us = (Inr rs, h')" and dist: "distinct rs"
    and frame: "\<forall>a. a < nxt h \<longrightarrow> objs h' a = objs h a"
    and fresh: "us \<noteq> [] \<longrightarrow> (\<forall>a \<in> set rs. nxt h \<le> a)"
    and nil: "us = [] \<longrightarrow> rs = [q] \<and> h' = h"
    and vals: "map (objs h') rs = completions (objs h q) us"
    by blast
  have own: "us \<noteq> [] \<longrightarrow> q \<notin> set rs"
    using fresh assms by auto
  have same: "objs h' q = objs h q"
    using frame assms by simp
  have len: "length rs = 2 ^ length us"
  proof -
    have "length (map (objs h') rs) = 2 ^ length us"
      by (simp only: vals length_completions)
    then show ?thesis by simp
  qed
  have img: "objs h' ` set rs = set (completions (objs h q) us)"
  proof -
    have "set (map (objs h') rs) = set (completions (objs h q) us)" by (simp only: vals)
    then show ?thesis by simp
  qed
  have maps: "map_of ` objs h' ` set rs =
         {m. (\<forall>x. x \<notin> set us \<longrightarrow> m x = map_of (objs h q) x) \<and>
             (\<forall>u \<in> set us. m u = Some ''t'' \<or> m u = Some ''f'')}"
    unfolding img by (rule set_eqI) (simp only: completions_maps_iff mem_Collect_eq)
  have dm: "distinct us \<longrightarrow> distinct (map (\<lambda>r. map_of (objs h' r)) rs)"
  proof
    assume "distinct us"
    from completions_distinct [OF this, of "objs h q"]
    have "distinct (map map_of (map (objs h') rs))" by (simp only: vals)
    then show "distinct (map (\<lambda>r. map_of (objs h' r)) rs)" by (simp add: comp_def)
  qed
  have ind: "\<forall>r \<in> set rs. \<forall>r' \<in> set rs. r \<noteq> r' \<longrightarrow>
           (\<forall>k v. objs (setitem h' r k v) r' = objs h' r')"
    by (simp add: objs_setitem)
  show ?thesis
    by (intro exI [of _ rs] exI [of _ h'] conjI; fact)
qed

theorem build_queries_completions_witness:
  "0 < nxt (heap_of [])
   \<and> (\<exists>rs h'. build_queries (heap_of []) 0 [''x'', ''y''] = (Inr rs, h')
        \<and> length rs = 4 \<and> distinct rs
        \<and> distinct (map (\<lambda>r. map_of (objs h' r)) rs)
        \<and> map (objs h') rs =
            [[(''x'', ''t''), (''y'', ''t'')], [(''x'', ''t''), (''y'', ''f'')],
             [(''x'', ''f''), (''y'', ''t'')], [(''x'', ''f''), (''y'', ''f'')]])"
proof -
  have 1: "0 < nxt (heap_of [])" by (simp add: heap_of_def)
  from build_queries_completions [OF 1, of "[''x'', ''y'']"] obtain rs h' where
    b: "build_queries (heap_of []) 0 [''x'', ''y''] = (Inr rs, h')"
    and l: "length rs = 2 ^ length [''x'', ''y'']"
    and v: "map (objs h') rs = completions (objs (heap_of []) 0) [''x'', ''y'']"
    and dm: "distinct [''x'', ''y''] \<longrightarrow> distinct (map (\<lambda>r. map_of (objs h' r)) rs)"
    and d: "distinct rs"
    by (elim exE conjE) (rule that)
  from v have v': "map (objs h') rs =
            [[(''x'', ''t''), (''y'', ''t'')], [(''x'', ''t''), (''y'', ''f'')],
             [(''x'', ''f''), (''y'', ''t'')], [(''x'', ''f''), (''y'', ''f'')]]"
    by (simp add: heap_of_def)
  from l have l4: "length rs = 4" by simp
  from dm have dm': "distinct (map (\<lambda>r. map_of (objs h' r)) rs)" by simp
  show ?thesis
    by (intro conjI exI [of _ rs] exI [of _ h']; fact 1 b l4 d dm' v')
qed

text \<open>
  Claim C4. On the example network of the module with target \<^verbatim>\<open>hd\<close>, the full-evidence
  query \<^verbatim>\<open>{e: f, d: t, cp: t, bp: t}\<close> has the score \<open>0.55 * 0.8 * 0.85 = 0.374\<close> with
  the target true and \<open>0.45 * 0.01 * 0.2 = 0.0009\<close> with the target false, no variable
  is unknown, and \<open>classify\<close> returns true. The numbers are exact rationals here.
\<close>

theorem example_network_full_evidence:
  "joint_score bbn example_query ''t'' = Inr (11 / 20 * (4 / 5) * (17 / 20))
   \<and> 11 / 20 * (4 / 5) * (17 / 20) = (374 / 1000 :: rat)
   \<and> joint_score bbn example_query ''f'' = Inr (9 / 20 * (1 / 100) * (1 / 5))
   \<and> 9 / 20 * (1 / 100) * (1 / 5) = (9 / 10000 :: rat)
   \<and> get_unknowns bbn example_query = []
   \<and> fst (classify bbn (heap_of example_query) 0) = Inr True"
  by (simp add: example_defs code_defs)

text \<open>
  Claim C5. For a node with parents and a key that is present in its table with the
  stored probability \<open>prob\<close>, \<open>get_prob\<close> returns \<open>prob\<close> for the value \<^verbatim>\<open>'t'\<close> and
  \<open>1 - prob\<close> for the value \<^verbatim>\<open>'f'\<close>; in exact arithmetic the two results sum to 1.
\<close>

theorem get_prob_true_false:
  fixes self :: "('p::{ab_group_add,one}) BBN_Node"
  assumes "parents self \<noteq> []" and "map_of (p_table self) parents_vals = Some prob"
  shows "get_prob self ''t'' parents_vals = Inr prob
       \<and> get_prob self ''f'' parents_vals = Inr (1 - prob)
       \<and> prob + (1 - prob) = 1"
  using assms by (simp add: get_prob_def dict_getitem_def)

theorem get_prob_true_false_witness:
  "parents hd_node \<noteq> [] \<and> map_of (p_table hd_node) ''ft'' = Some (11 / 20)
   \<and> get_prob hd_node ''t'' ''ft'' = Inr (11 / 20)
   \<and> get_prob hd_node ''f'' ''ft'' = Inr (1 - 11 / 20)"
proof -
  have a: "parents hd_node \<noteq> []" by (simp add: hd_node_def)
  have b: "map_of (p_table hd_node) ''ft'' = Some (11 / 20)" by (simp add: hd_node_def)
  from a b get_prob_true_false [OF a b] show ?thesis by blast
qed

text \<open>
  Claim C6, as stated, fails for a parent label that names no node of the network: in the
  example network without its roots, the parents \<^verbatim>\<open>e\<close> and \<^verbatim>\<open>d\<close> of \<^verbatim>\<open>hd\<close> are not
  in the graph, a query over \<^verbatim>\<open>cp\<close> and \<^verbatim>\<open>bp\<close> passes both checks, and \<open>classify\<close>
  fails with \<open>KeyError ''e''\<close> while it scores, after it has written the target into the
  caller's query.
\<close>

theorem classify_dangling_parent_counterexample:
  "(''hd'', hd_node) \<in> set (graph bbn_dangling)
   \<and> ''e'' \<in> set (parents hd_node)
   \<and> \<not> dict_contains (graph bbn_dangling) ''e''
   \<and> fst (classify bbn_dangling (heap_of [(''cp'', ''t''), (''bp'', ''t'')]) 0) = Inl (KeyError ''e'')
   \<and> objs (snd (classify bbn_dangling (heap_of [(''cp'', ''t''), (''bp'', ''t'')]) 0)) 0
       = [(''cp'', ''t''), (''bp'', ''t''), (''hd'', ''t'')]"
  by (simp add: bbn_dangling_def example_defs code_defs)

text \<open>
  Claim C6, amended. \<open>classify\<close> fails with \<open>BadQueryError ''Query is empty''\<close> when and
  only when the query has no entries, and fails with the \<open>BadQueryError\<close> of an unknown
  variable when the query is not empty and one of its keys is not a label of the graph;
  both failures leave the store as it was, so they happen before any scoring or
  enumeration. Parent labels are not checked.
\<close>

theorem classify_validation:
  fixes self :: "('p::{times,plus,minus,zero,one,ord}) BBN"
  shows "(fst (classify self h q) = Inl (BadQueryError ''Query is empty'') \<longleftrightarrow> objs h q = [])
       \<and> (objs h q = [] \<longrightarrow> snd (classify self h q) = h)
       \<and> (objs h q \<noteq> [] \<and> (\<exists>var \<in> set (map fst (objs h q)). \<not> dict_contains (graph self) var) \<longrightarrow>
            (\<exists>var \<in> set (map fst (objs h q)). \<not> dict_contains (graph self) var \<and>
               classify self h q =
                 (Inl (BadQueryError (''Variable: '' @ [CHR 0x22] @ var @ [CHR 0x22] @ '' not in graph'')), h)))"
proof (intro conjI impI)
  show "fst (classify self h q) = Inl (BadQueryError ''Query is empty'') \<longleftrightarrow> objs h q = []"
  proof
    assume e: "fst (classify self h q) = Inl (BadQueryError ''Query is empty'')"
    show "objs h q = []"
    proof (rule ccontr)
      assume ne: "objs h q \<noteq> []"
      show False
      proof (cases "check_vars (graph self) (map fst (objs h q))")
        case (Some err)
        from check_vars_Some [OF Some] e ne Some show False
          by (auto simp: classify_def)
      next
        case None
        let ?us = "get_unknowns self (objs h q)"
        show False
        proof (cases "?us = []")
          case True
          with e ne None have "fst (classify_all_evidence self h q) = Inl (BadQueryError ''Query is empty'')"
            by (simp add: classify_valid)
          then show False
            by (auto simp: classify_all_evidence_def Let_def split: sum.splits dest: query_error)
        next
          case False
          with e ne None have p: "fst (classify_partial_evidence self h q ?us) = Inl (BadQueryError ''Query is empty'')"
            by (simp add: classify_valid)
          obtain rs h' where b: "build_queries h q ?us = (Inr rs, h')"
            using build_queries_total by blast
          obtain r h'' where s: "score_loop self rs h' [] [] = (r, h'')"
            by (cases "score_loop self rs h' [] []")
          from p b s have "r = Inl (BadQueryError ''Query is empty'')"
            by (auto simp: classify_partial_evidence_def split: sum.splits)
          with s score_loop_error [of self rs h' "[]" "[]" "BadQueryError ''Query is empty''" h'']
          show False by (auto dest: query_error)
        qed
      qed
    qed
  next
    assume "objs h q = []"
    then show "fst (classify self h q) = Inl (BadQueryError ''Query is empty'')"
      by (simp add: classify_def)
  qed
next
  assume "objs h q = []"
  then show "snd (classify self h q) = h" by (simp add: classify_def)
next
  assume a: "objs h q \<noteq> [] \<and> (\<exists>var \<in> set (map fst (objs h q)). \<not> dict_contains (graph self) var)"
  then have "check_vars (graph self) (map fst (objs h q)) \<noteq> None"
    by (simp only: check_vars_None) blast
  then obtain err where s: "check_vars (graph self) (map fst (objs h q)) = Some err" by auto
  from check_vars_Some [OF s] a s
  show "\<exists>var \<in> set (map fst (objs h q)). \<not> dict_contains (graph self) var \<and>
               classify self h q =
                 (Inl (BadQueryError (''Variable: '' @ [CHR 0x22] @ var @ [CHR 0x22] @ '' not in graph'')), h)"
    by (auto simp: classify_def)
qed

theorem classify_validation_witness:
  "fst (classify bbn (heap_of []) 0) = Inl (BadQueryError ''Query is empty'')
   \<and> snd (classify bbn (heap_of []) 0) = heap_of []
   \<and> classify bbn (heap_of [(''z'', ''t'')]) 0 =
       (Inl (BadQueryError (''Variable: '' @ [CHR 0x22] @ ''z'' @ [CHR 0x22] @ '' not in graph'')),
        heap_of [(''z'', ''t'')])"
proof -
  have g: "graph bbn =
     [(''e'', e_node), (''d'', d_node), (''hd'', hd_node), (''cp'', cp_node), (''bp'', bp_node)]"
    by (simp add: example_defs)
  have e: "objs (heap_of []) 0 = []" by (simp add: heap_of_def)
  have z: "objs (heap_of [(''z'', ''t'')]) 0 = [(''z'', ''t'')]" by (simp add: heap_of_def)
  have nz: "\<not> dict_contains (graph bbn) ''z''" by (simp add: g dict_contains_def)
  from classify_validation [of bbn "heap_of []" 0] e
  have 1: "fst (classify bbn (heap_of []) 0) = Inl (BadQueryError ''Query is empty'')"
    and 2: "snd (classify bbn (heap_of []) 0) = heap_of []" by simp_all
  from classify_validation [of bbn "heap_of [(''z'', ''t'')]" 0] nz
  have 3: "classify bbn (heap_of [(''z'', ''t'')]) 0 =
       (Inl (BadQueryError (''Variable: '' @ [CHR 0x22] @ ''z'' @ [CHR 0x22] @ '' not in graph'')),
        heap_of [(''z'', ''t'')])"
    unfolding z by simp
  from 1 2 3 show ?thesis by simp
qed

text \<open>
  Claim C7. For a node \<open>cn\<close> with parents whose table has no entry for the key \<open>k\<close>
  formed from the parent values, \<open>get_prob\<close> fails with \<open>KeyError k\<close>. When this lookup
  is reached while \<open>classify\<close> scores the completion \<open>c\<close> with the target bound to
  \<open>b\<close> (the completions before \<open>c\<close> scored without error, and so did the nodes of the
  graph before \<open>cn\<close>), the score of \<open>c\<close> is this error and \<open>classify\<close> returns it:
  no default value takes its place.
\<close>

theorem missing_parent_combination_propagates:
  fixes self :: "('p::{times,plus,minus,zero,one,ord}) BBN"
  assumes "objs h q \<noteq> []"
    and "check_vars (graph self) (map fst (objs h q)) = None"
    and "q < nxt h"
    and "completions (objs h q) (get_unknowns self (objs h q)) = pre @ c # post"
    and "\<forall>c' \<in> set pre. \<exists>x y. joint_score self c' ''t'' = Inr x \<and> joint_score self c' ''f'' = Inr y"
    and "b = ''t'' \<or> (b = ''f'' \<and> (\<exists>x. joint_score self c ''t'' = Inr x))"
    and "graph self = g1 @ (node, cn) # g2"
    and "query_loop g1 (dict_setitem c (target self) b) [] = Inr probs"
    and "parents cn \<noteq> []"
    and "join_vals (dict_setitem c (target self) b) (parents cn) = Inr k"
    and "dict_getitem (dict_setitem c (target self) b) node = Inr v"
    and "map_of (p_table cn) k = None"
  shows "get_prob cn v k = Inl (KeyError k)
       \<and> joint_score self c b = Inl (KeyError k)
       \<and> fst (classify self h q) = Inl (KeyError k)"
proof -
  have g: "get_prob cn v k = Inl (KeyError k)"
    using assms(9,12) by (simp add: get_prob_def dict_getitem_def)
  have "query_loop (graph self) (dict_setitem c (target self) b) [] = Inl (KeyError k)"
    using assms(8,9,10,11) g
    by (simp add: assms(7) query_loop_append has_parents_def)
  then have j: "joint_score self c b = Inl (KeyError k)"
    by (simp add: joint_score_def query_def)
  have "joint_score self c ''t'' = Inl (KeyError k) \<or>
     (\<exists>x. joint_score self c ''t'' = Inr x \<and> joint_score self c ''f'' = Inl (KeyError k))"
    using assms(6) j by auto
  from score_vals_first_error [OF assms(5) this, of post]
  have "score_vals self (completions (objs h q) (get_unknowns self (objs h q))) = Inl (KeyError k)"
    by (simp only: assms(4))
  from classify_error [OF assms(1,2,3) this] g j show ?thesis by simp
qed

theorem missing_parent_combination_propagates_witness:
  "get_prob hd_incomplete ''t'' ''ft'' = Inl (KeyError ''ft'')
   \<and> joint_score bbn_incomplete example_query ''t'' = Inl (KeyError ''ft'')
   \<and> fst (classify bbn_incomplete (heap_of example_query) 0) = Inl (KeyError ''ft'')"
proof -
  have g: "graph bbn_incomplete =
     [(''e'', e_node), (''d'', d_node)] @ (''hd'', hd_incomplete) # [(''cp'', cp_node), (''bp'', bp_node)]"
    by (simp add: bbn_incomplete_def hd_incomplete_def example_defs)
  have t: "target bbn_incomplete = ''hd''" by (simp add: bbn_incomplete_def BBN_init_def)
  have 1: "objs (heap_of example_query) 0 \<noteq> []" by (simp add: example_defs)
  have 2: "check_vars (graph bbn_incomplete) (map fst (objs (heap_of example_query) 0)) = None"
    by (simp add: g example_defs dict_contains_def)
  have 3: "0 < nxt (heap_of example_query)" by (simp add: heap_of_def)
  have 4: "completions (objs (heap_of example_query) 0)
      (get_unknowns bbn_incomplete (objs (heap_of example_query) 0)) = [] @ example_query # []"
    by (simp add: g t get_unknowns_def dict_contains_def example_defs)
  have 5: "\<forall>c' \<in> set []. \<exists>x y. joint_score bbn_incomplete c' ''t'' = Inr x \<and>
      joint_score bbn_incomplete c' ''f'' = Inr y" by simp
  have 6: "''t'' = ''t'' \<or> (''t'' = ''f'' \<and> (\<exists>x. joint_score bbn_incomplete example_query ''t'' = Inr x))"
    by simp
  have 8: "query_loop [(''e'', e_node), (''d'', d_node)]
      (dict_setitem example_query (target bbn_incomplete) ''t'') [] = Inr []"
    by (simp add: has_parents_def example_defs)
  have 9: "parents hd_incomplete \<noteq> []" by (simp add: hd_incomplete_def)
  have 10: "join_vals (dict_setitem example_query (target bbn_incomplete) ''t'') (parents hd_incomplete)
      = Inr ''ft''"
    by (simp add: t hd_incomplete_def example_query_def dict_getitem_def)
  have 11: "dict_getitem (dict_setitem example_query (target bbn_incomplete) ''t'') ''hd'' = Inr ''t''"
    by (simp add: t example_query_def dict_getitem_def)
  have 12: "map_of (p_table hd_incomplete) ''ft'' = None" by (simp add: hd_incomplete_def)
  from missing_parent_combination_propagates [OF 1 2 3 4 5 6 g 8 9 10 11 12]
  show ?thesis .
qed

text \<open>
  Claim C8, as stated, fails for a node with parents that is given the empty key: the node
  \<^verbatim>\<open>cp\<close> of the example network fails with \<open>KeyError\<close>, which is the error of a missing
  table entry and not \<open>BadQueryError\<close>, and a node whose table has an entry for the
  empty key does not fail at all.
\<close>

theorem get_prob_empty_key_counterexample:
  "parents cp_node \<noteq> [] \<and> get_prob cp_node ''t'' '''' = Inl (KeyError '''')
   \<and> get_prob \<lparr> p_table = [('''', 1 / 2 :: rat)], label = ''x'', parents = [''a''] \<rparr> ''t'' '''' = Inr (1 / 2)"
  by (simp add: cp_node_def get_prob_def dict_getitem_def)

text \<open>
  Claim C8, amended. A node without parents that is given a non-empty key fails with
  \<open>BadQueryError\<close>. A node with parents that is given the empty key looks the empty key
  up in its table as any other key: \<open>KeyError\<close> when it is absent, the probability
  otherwise.
\<close>

theorem get_prob_arity:
  fixes self :: "('p::{minus,one}) BBN_Node"
  shows "(parents self = [] \<and> parents_vals \<noteq> [] \<longrightarrow>
            get_prob self val parents_vals =
              Inl (BadQueryError (''Node '' @ label self @ '' has no parents'')))
       \<and> (parents self \<noteq> [] \<longrightarrow>
            get_prob self val [] =
              (case map_of (p_table self) [] of
                 None \<Rightarrow> Inl (KeyError [])
               | Some prob \<Rightarrow> Inr (if val = ''t'' then prob else 1 - prob)))"
  by (simp add: get_prob_def dict_getitem_def split: option.splits)

theorem get_prob_arity_witness:
  "get_prob e_node ''t'' ''t'' = Inl (BadQueryError ''Node e has no parents'')
   \<and> get_prob cp_node ''t'' [] = Inl (KeyError [])"
  using get_prob_arity [of e_node "''t''" "''t''"] get_prob_arity [of cp_node _ "''t''"]
  by (simp add: e_node_def cp_node_def)

text \<open>
  Claim C9. For a query that passes both checks: when no variable is unknown and
  \<open>classify\<close> returns a boolean, the caller's dictionary is afterwards the one it
  passed in with the target bound to \<^verbatim>\<open>'f'\<close>; when some variable is unknown, the
  caller's dictionary is afterwards as it was, whatever \<open>classify\<close> returns.
\<close>

theorem classify_query_mutation:
  fixes self :: "('p::{times,plus,minus,zero,one,ord}) BBN"
  assumes "objs h q \<noteq> []"
    and "check_vars (graph self) (map fst (objs h q)) = None"
    and "q < nxt h"
  shows "(get_unknowns self (objs h q) = [] \<and> fst (classify self h q) = Inr b \<longrightarrow>
            objs (snd (classify self h q)) q = dict_setitem (objs h q) (target self) ''f''
          \<and> map_of (objs (snd (classify self h q)) q) (target self) = Some ''f'')
       \<and> (get_unknowns self (objs h q) \<noteq> [] \<longrightarrow>
            objs (snd (classify self h q)) q = objs h q)"
proof (intro conjI impI)
  assume a: "get_unknowns self (objs h q) = [] \<and> fst (classify self h q) = Inr b"
  then have "objs (snd (classify self h q)) q = dict_setitem (objs h q) (target self) ''f''"
    using assms(1,2)
    by (auto simp: classify_valid classify_all_evidence_char objs_setitem split: sum.splits)
  then show "objs (snd (classify self h q)) q = dict_setitem (objs h q) (target self) ''f''"
    and "map_of (objs (snd (classify self h q)) q) (target self) = Some ''f''"
    by (simp_all add: dict_setitem_map_of)
next
  assume a: "get_unknowns self (objs h q) \<noteq> []"
  with classify_partial_evidence_char(2) [OF assms(3) a, of self] assms
  show "objs (snd (classify self h q)) q = objs h q"
    by (simp add: classify_valid)
qed

theorem classify_query_mutation_witness:
  "objs (snd (classify bbn (heap_of example_query) 0)) 0 = example_query @ [(''hd'', ''f'')]
   \<and> map_of (objs (snd (classify bbn (heap_of example_query) 0)) 0) ''hd'' = Some ''f''
   \<and> objs (snd (classify bbn (heap_of partial_query) 0)) 0 = partial_query"
proof -
  have g: "graph bbn =
     [(''e'', e_node), (''d'', d_node), (''hd'', hd_node), (''cp'', cp_node), (''bp'', bp_node)]"
    by (simp add: example_defs)
  have t: "target bbn = ''hd''" by (simp add: bbn_def BBN_init_def)
  have 1: "objs (heap_of example_query) 0 \<noteq> []" by (simp add: heap_of_def example_query_def)
  have 2: "check_vars (graph bbn) (map fst (objs (heap_of example_query) 0)) = None"
    by (simp add: g heap_of_def example_query_def dict_contains_def)
  have 3: "0 < nxt (heap_of example_query)" by (simp add: heap_of_def)
  have u: "get_unknowns bbn (objs (heap_of example_query) 0) = []"
    by (simp add: g t get_unknowns_def heap_of_def example_query_def dict_contains_def)
  have r: "fst (classify bbn (heap_of example_query) 0) = Inr True"
    by (simp add: example_defs code_defs)
  have o: "dict_setitem (objs (heap_of example_query) 0) ''hd'' ''f''
      = example_query @ [(''hd'', ''f'')]"
    by (simp add: heap_of_def example_query_def)
  have m: "objs (snd (classify bbn (heap_of example_query) 0)) 0
        = dict_setitem (objs (heap_of example_query) 0) (target bbn) ''f''
     \<and> map_of (objs (snd (classify bbn (heap_of example_query) 0)) 0) (target bbn) = Some ''f''"
    using classify_query_mutation [OF 1 2 3, of True] u r by blast
  have full: "objs (snd (classify bbn (heap_of example_query) 0)) 0 = example_query @ [(''hd'', ''f'')]
     \<and> map_of (objs (snd (classify bbn (heap_of example_query) 0)) 0) ''hd'' = Some ''f''"
    using m unfolding t o .
  have 1: "objs (heap_of partial_query) 0 \<noteq> []" by (simp add: heap_of_def partial_query_def)
  have 2: "check_vars (graph bbn) (map fst (objs (heap_of partial_query) 0)) = None"
    by (simp add: g heap_of_def partial_query_def dict_contains_def)
  have 3: "0 < nxt (heap_of partial_query)" by (simp add: heap_of_def)
  have u: "get_unknowns bbn (objs (heap_of partial_query) 0) \<noteq> []"
    by (simp add: g t get_unknowns_def heap_of_def partial_query_def dict_contains_def)
  have o: "objs (heap_of partial_query) 0 = partial_query" by (simp add: heap_of_def)
  have part: "objs (snd (classify bbn (heap_of partial_query) 0)) 0 = partial_query"
    using classify_query_mutation [OF 1 2 3, of True] u o by simp
  from full part show ?thesis by blast
qed

text \<open>
  Claim C10. In a network in which no node has parents, every call of \<open>classify\<close> that
  passes the empty-query check and the unknown-variable check fails with the
  \<open>TypeError\<close> of \<^verbatim>\<open>reduce\<close> on an empty list, on both paths.
\<close>

theorem classify_no_parents_fails:
  assumes "\<forall>(node, cn) \<in> set (graph self). parents cn = []"
    and "objs h q \<noteq> []"
    and "check_vars (graph self) (map fst (objs h q)) = None"
  shows "fst (classify self h q) =
     Inl (TypeError ''reduce() of empty iterable with no initial value'')"
proof (cases "get_unknowns self (objs h q) = []")
  case True
  with assms(2,3) show ?thesis
    by (simp add: classify_valid classify_all_evidence_def Let_def query_no_parents [OF assms(1)])
next
  case False
  obtain rs h' where b: "build_queries h q (get_unknowns self (objs h q)) = (Inr rs, h')"
    and ne: "rs \<noteq> []" using build_queries_total by blast
  have "fst (score_loop self rs h' [] []) =
     Inl (TypeError ''reduce() of empty iterable with no initial value'')"
    using query_no_parents [OF assms(1)] ne by (intro score_loop_first_fails) auto
  then obtain h'' where "score_loop self rs h' [] [] =
     (Inl (TypeError ''reduce() of empty iterable with no initial value''), h'')"
    by (cases "score_loop self rs h' [] []") auto
  with False assms(2,3) b show ?thesis
    by (simp add: classify_valid classify_partial_evidence_def)
qed

theorem classify_no_parents_fails_witness:
  "map (\<lambda>(node, cn). parents cn) (graph bbn_roots) = [[], []]
   \<and> objs (heap_of [(''d'', ''t'')]) 0 \<noteq> []
   \<and> check_vars (graph bbn_roots) (map fst (objs (heap_of [(''d'', ''t'')]) 0)) = None
   \<and> fst (classify bbn_roots (heap_of [(''d'', ''t'')]) 0) =
       Inl (TypeError ''reduce() of empty iterable with no initial value'')"
proof -
  have a: "\<forall>(node, cn) \<in> set (graph bbn_roots). parents cn = []"
    by (simp add: bbn_roots_def example_defs)
  have b: "objs (heap_of [(''d'', ''t'')]) 0 \<noteq> []" by (simp add: heap_of_def)
  have c: "check_vars (graph bbn_roots) (map fst (objs (heap_of [(''d'', ''t'')]) 0)) = None"
    by (simp add: bbn_roots_def example_defs dict_contains_def)
  have a': "map (\<lambda>(node, cn). parents cn) (graph bbn_roots) = [[], []]"
    by (simp add: bbn_roots_def example_defs)
  from a' b c classify_no_parents_fails [OF a b c] show ?thesis by blast
qed

end
